theory Spec2Isabelle
  imports Main "HOL-Library.Sublist"
begin

section \<open>String operations of the host language\<close>

text \<open>
  Strings are character lists. The text field that holds the exclusion list only lets
  digits and commas through, and the alphabet is made of lowercase letters and digits, so
  8-bit characters cover every string the page builds.
\<close>

definition is_whitespace :: "char \<Rightarrow> bool" where
  \<comment> \<open>the characters \<open>String.prototype.trim\<close> strips: TAB, LF, VT, FF, CR, SP, NBSP\<close>
  "is_whitespace c = (c \<in> set [CHR 0x09, CHR 0x0A, CHR 0x0B, CHR 0x0C, CHR 0x0D, CHR 0x20, CHR 0xA0])"

definition trim :: "string \<Rightarrow> string" where
  "trim s = rev (dropWhile is_whitespace (rev (dropWhile is_whitespace s)))"

fun split_on :: "char \<Rightarrow> string \<Rightarrow> string list" where
  \<comment> \<open>\<open>s.split(sep)\<close> for a one-character separator: empty pieces are kept\<close>
  "split_on sep [] = [[]]"
| "split_on sep (c # cs) =
     (if c = sep then [] # split_on sep cs
      else (case split_on sep cs of
              [] \<Rightarrow> [[c]]
            | t # ts \<Rightarrow> (c # t) # ts))"

fun str_includes :: "string \<Rightarrow> string \<Rightarrow> bool" where
  \<comment> \<open>\<open>s.includes(d)\<close>: \<open>d\<close> occurs in \<open>s\<close> as a contiguous piece\<close>
  "str_includes [] d = (d = [])"
| "str_includes (c # cs) d = (take (length d) (c # cs) = d \<or> str_includes cs d)"

definition charAt :: "string \<Rightarrow> int \<Rightarrow> string" where
  \<comment> \<open>\<open>s.charAt(k)\<close>: the empty string when \<open>k\<close> is out of range\<close>
  "charAt s k = (if 0 \<le> k \<and> k < int (length s) then [s ! nat k] else [])"

definition remove_all :: "string \<Rightarrow> string \<Rightarrow> string" where
  \<comment> \<open>\<open>s.replace(new RegExp(digit, 'g'), "")\<close> for a pattern that is one literal
      character; the filter before it lets no other pattern through\<close>
  "remove_all digit s = (case digit of [c] \<Rightarrow> filter (\<lambda>x. x \<noteq> c) s | _ \<Rightarrow> s)"

definition digit_char :: "nat \<Rightarrow> char" where
  "digit_char n = ''0123456789'' ! (n mod 10)"

fun string_of_nat :: "nat \<Rightarrow> string" where
  "string_of_nat n =
     (if n < 10 then [digit_char n] else string_of_nat (n div 10) @ [digit_char n])"

definition string_of_int :: "int \<Rightarrow> string" where
  \<comment> \<open>a number inside a template literal\<close>
  "string_of_int k = (if k < 0 then ''-'' @ string_of_nat (nat (- k)) else string_of_nat (nat k))"

section \<open>The page state\<close>

datatype log_type = Info | Success | Error | Accent | Muted

record LogMessage =
  msg_text :: string
  msg_type :: log_type

record AvailableUsername =
  timestamp :: string
  username :: string

record hunt_stats =
  attempts :: nat
  available :: nat
  taken :: nat

datatype effect = Fetch string | Delay nat

text \<open>
  One field for each \<open>useState\<close> cell and for the abort controller reference
  (\<open>None\<close> is \<open>null\<close>, \<open>Some b\<close> a controller whose signal has \<open>aborted = b\<close>).
  The last field records what the page did to the outside world, in order: the requests it
  sent and the timers it waited for. The \<open>id\<close> of a log message is a fresh random UUID used
  as a rendering key only; it is left out.
\<close>

record app_state =
  usernameLength :: string
  excludeNumbers :: bool
  specificNumbersToExclude :: string
  isHunting :: bool
  availableUsernames :: "AvailableUsername list"
  logMessages :: "LogMessage list"
  stats :: hunt_stats
  isThrottled :: bool
  abortController :: "bool option"
  isLoading :: bool
  effects :: "effect list"

definition initial_state :: app_state where
  "initial_state =
     \<lparr>usernameLength = ''3'', excludeNumbers = False, specificNumbersToExclude = '''',
      isHunting = False, availableUsernames = [], logMessages = [],
      stats = \<lparr>attempts = 0, available = 0, taken = 0\<rparr>, isThrottled = False,
      abortController = None, isLoading = False, effects = []\<rparr>"

definition addLog :: "string \<Rightarrow> log_type \<Rightarrow> app_state \<Rightarrow> app_state" where
  "addLog txt ty s = s\<lparr>logMessages := logMessages s @ [\<lparr>msg_text = txt, msg_type = ty\<rparr>]\<rparr>"

definition signal_aborted :: "app_state \<Rightarrow> bool" where
  "signal_aborted s = (abortController s = Some True)"

definition abort :: "app_state \<Rightarrow> app_state" where
  \<comment> \<open>\<open>if (abortControllerRef.current) abortControllerRef.current.abort()\<close>\<close>
  "abort s = (case abortController s of None \<Rightarrow> s | Some b \<Rightarrow> s\<lparr>abortController := Some True\<rparr>)"

section \<open>Candidate generation\<close>

text \<open>
  A render of the component fixes the values its closures read: \<open>generateUsername\<close> and
  \<open>huntUsernames\<close> read \<open>excludeNumbers\<close>, \<open>specificNumbersToExclude\<close> and \<open>isThrottled\<close> as
  constants of the render that created them, while the setters act on the live state. The
  functions below therefore take the render \<open>r\<close> (the state as it was when the hunt was
  started) next to the live state \<open>s\<close>.
\<close>

definition excludedDigits :: "string \<Rightarrow> string list" where
  "excludedDigits sp =
     filter (\<lambda>d. length d = 1 \<and> str_includes ''0123456789'' d) (map trim (split_on CHR '','' sp))"

definition numbersToInclude :: "string \<Rightarrow> string" where
  "numbersToInclude sp =
     (if trim sp \<noteq> '''' then fold remove_all (excludedDigits sp) ''0123456789''
      else ''0123456789'')"

definition availableChars :: "bool \<Rightarrow> string \<Rightarrow> string" where
  \<comment> \<open>the same derivation stands in \<open>generateUsername\<close> and in \<open>handleStartHunting\<close>\<close>
  "availableChars excl sp =
     ''abcdefghijklmnopqrstuvwxyz'' @ (if \<not> excl then numbersToInclude sp else '''')"

text \<open>
  \<open>Math.random()\<close> returns a double at least 0 and less than 1. Every such double is
  \<open>mant / 2 ^ expo\<close> for a significand \<open>mant\<close> below \<open>2 ^ 53\<close> and an exponent of at most
  1074, and it is written so here.
\<close>

record double =
  mant :: nat
  expo :: nat

definition is_random_value :: "double \<Rightarrow> bool" where
  "is_random_value d = (mant d < 2 ^ 53 \<and> mant d < 2 ^ expo d \<and> expo d \<le> 1074)"

definition double_zero :: double where
  "double_zero = \<lparr>mant = 0, expo = 0\<rparr>"

definition double_half :: double where
  "double_half = \<lparr>mant = 1, expo = 1\<rparr>"

text \<open>
  The product of two doubles is the exact product rounded to 53 significant bits, to the
  nearest, ties to the even significand. The length of the alphabet is an integer below
  \<open>2 ^ 53\<close>, exact as a double, so the exact product is \<open>mant * n / 2 ^ expo\<close>:
  \<open>excess_bits\<close> counts the low bits of \<open>mant * n\<close> that do not fit into the significand,
  \<open>round_half_even\<close> rounds them away, and \<open>Math.floor\<close> of the rounded product is an
  integer division.
\<close>

fun excess_bits :: "nat \<Rightarrow> nat" where
  "excess_bits p = (if p < 2 ^ 53 then 0 else Suc (excess_bits (p div 2)))"

definition round_half_even :: "nat \<Rightarrow> nat \<Rightarrow> nat" where
  \<comment> \<open>\<open>p / 2 ^ s\<close> rounded to the nearest integer, a tie to the even one\<close>
  "round_half_even p s =
     (if s = 0 then p
      else (let q = p div 2 ^ s; rest = p mod 2 ^ s; half = 2 ^ (s - 1)
            in if rest < half then q
               else if half < rest then q + 1
               else if even q then q else q + 1))"

definition floor_of_product :: "double \<Rightarrow> nat \<Rightarrow> nat" where
  \<comment> \<open>\<open>Math.floor(d * n)\<close>\<close>
  "floor_of_product d n =
     (let p = mant d * n; s = excess_bits p; q = round_half_even p s
      in (q * 2 ^ s) div 2 ^ expo d)"

text \<open>\<open>rnd i\<close> is the value of the \<open>i\<close>-th call of \<open>Math.random()\<close>.\<close>

function generate_loop :: "string \<Rightarrow> (nat \<Rightarrow> double) \<Rightarrow> int \<Rightarrow> nat \<Rightarrow> string \<Rightarrow> string" where
  "generate_loop chars rnd len i result =
     (if int i < len
      then generate_loop chars rnd len (Suc i)
             (result @ charAt chars (int (floor_of_product (rnd i) (length chars))))
      else result)"
  by pat_completeness auto
termination
  by (relation "measure (\<lambda>(chars, rnd, len, i, result). nat (len - int i))") auto

definition generateUsername ::
  "app_state \<Rightarrow> (nat \<Rightarrow> double) \<Rightarrow> int \<Rightarrow> app_state \<Rightarrow> string \<times> app_state" where
  "generateUsername r rnd len s =
     (let chars = availableChars (excludeNumbers r) (specificNumbersToExclude r) in
      if length chars = 0
      then (''ERROR_NO_CHARS'',
            addLog ''Internal Error: No characters available for username generation. Adjust settings.''
              Error s)
      else (generate_loop chars rnd len 0 '''', s))"

section \<open>The remote check\<close>

definition GITHUB_API_BASE_URL :: string where
  "GITHUB_API_BASE_URL = ''https://api.github.com/users/''"

definition MIN_USERNAME_LENGTH :: int where "MIN_USERNAME_LENGTH = 1"
definition MAX_USERNAME_LENGTH :: int where "MAX_USERNAME_LENGTH = 39"
definition USER_INPUT_MIN_LENGTH :: int where "USER_INPUT_MIN_LENGTH = 3"

datatype outcome = CheckAvailable | CheckTaken | CheckThrottled | CheckError | CheckAborted

datatype fetch_result =
    Response nat \<comment> \<open>the promise resolves: \<open>response.status\<close>\<close>
  | Rejected string string \<comment> \<open>the promise rejects: \<open>error.name\<close>, \<open>error.message\<close>\<close>

text \<open>
  What the outside world does during one iteration of the loop: whether the user presses
  Stop while the loop waits at each of its four suspension points, the values of
  \<open>Math.random()\<close>, how the request ends and what the clock reads.
\<close>

record iteration =
  stop_in_pause :: bool
  math_random :: "nat \<Rightarrow> double"
  fetched :: fetch_result
  stop_in_fetch :: bool
  now :: string
  stop_in_error_delay :: bool
  stop_in_delay :: bool

definition handleStopHunting :: "app_state \<Rightarrow> app_state" where
  "handleStopHunting s =
     (let s = abort s;
          s = s\<lparr>isHunting := False\<rparr>;
          s = s\<lparr>isLoading := False\<rparr>;
          s = s\<lparr>isThrottled := False\<rparr>
      in addLog ''Hunting stopped by user.'' Info s)"

definition click_stop :: "app_state \<Rightarrow> app_state" where
  \<comment> \<open>the Stop button is rendered in place of the Start button only while \<open>isHunting\<close>\<close>
  "click_stop s = (if isHunting s then handleStopHunting s else s)"

definition delay :: "nat \<Rightarrow> bool \<Rightarrow> app_state \<Rightarrow> app_state" where
  \<comment> \<open>\<open>await delay(ms)\<close>; \<open>stop\<close>: the user presses Stop before the timer fires\<close>
  "delay ms stop s =
     (let s = s\<lparr>effects := effects s @ [Delay ms]\<rparr>
      in if stop then click_stop s else s)"

definition checkUsernameAvailability ::
  "string \<Rightarrow> iteration \<Rightarrow> app_state \<Rightarrow> outcome \<times> app_state" where
  "checkUsernameAvailability uname it s =
     (let s = s\<lparr>effects := effects s @ [Fetch (GITHUB_API_BASE_URL @ uname)]\<rparr>;
          s = (if stop_in_fetch it then click_stop s else s)
      in case fetched it of
           Response status \<Rightarrow>
             if status = 404 then (CheckAvailable, s)
             else if status = 200 then (CheckTaken, s)
             else if status = 403 \<or> status = 429 then (CheckThrottled, s)
             else (CheckError,
                   addLog (''Unexpected status code '' @ string_of_nat status @ '' for '' @ uname)
                     Error s)
         | Rejected name message \<Rightarrow>
             if name = ''AbortError'' then (CheckAborted, s)
             else (CheckError,
                   addLog (''Request failed for '' @ uname @ '': '' @ message) Error s))"

section \<open>The hunt loop\<close>

record frame =
  currentAttempts :: nat
  currentAvailable :: nat
  currentTaken :: nat

definition stats_of :: "frame \<Rightarrow> hunt_stats" where
  "stats_of f =
     \<lparr>attempts = currentAttempts f, available = currentAvailable f, taken = currentTaken f\<rparr>"

datatype ctl = Break | Continue

definition throttle_pause :: "app_state \<Rightarrow> iteration \<Rightarrow> app_state \<Rightarrow> ctl \<times> app_state" where
  \<comment> \<open>the \<open>if (isThrottled)\<close> block at the head of the loop body\<close>
  "throttle_pause r it s =
     (if isThrottled r
      then (let s = addLog ''Rate limit likely hit. Pausing for 60 seconds...'' Error s;
                s = delay 60000 (stop_in_pause it) s;
                s = s\<lparr>isThrottled := False\<rparr>;
                s = addLog ''Resuming hunt...'' Info s
            in (if signal_aborted s then Break else Continue, s))
      else (Continue, s))"

definition process_result ::
  "string \<Rightarrow> iteration \<Rightarrow> outcome \<Rightarrow> frame \<Rightarrow> app_state \<Rightarrow> frame \<times> app_state" where
  \<comment> \<open>the \<open>switch (result)\<close>\<close>
  "process_result uname it result f s =
     (case result of
        CheckAvailable \<Rightarrow>
          (let f = f\<lparr>currentAvailable := currentAvailable f + 1\<rparr>;
               s = s\<lparr>availableUsernames :=
                      availableUsernames s @ [\<lparr>timestamp = now it, username = uname\<rparr>]\<rparr>;
               s = addLog (''AVAILABLE: '' @ uname) Accent s
           in (f, s))
      | CheckTaken \<Rightarrow> (f\<lparr>currentTaken := currentTaken f + 1\<rparr>, s)
      | CheckThrottled \<Rightarrow> (f, s\<lparr>isThrottled := True\<rparr>)
      | CheckError \<Rightarrow> (f, delay 5000 (stop_in_error_delay it) s)
      | CheckAborted \<Rightarrow> (f, s))"

definition hunt_check ::
  "string \<Rightarrow> iteration \<Rightarrow> frame \<Rightarrow> app_state \<Rightarrow> ctl \<times> frame \<times> app_state" where
  \<comment> \<open>the loop body from the remote call to its end\<close>
  "hunt_check uname it f s =
     (case checkUsernameAvailability uname it s of
        (result, s) \<Rightarrow>
          if signal_aborted s then (Break, f, addLog ''Hunt aborted by user.'' Info s)
          else (case process_result uname it result f s of
                  (f, s) \<Rightarrow>
                    (let s = s\<lparr>stats := stats_of f\<rparr>;
                         s = delay 1500 (stop_in_delay it) s
                     in (Continue, f, s))))"

definition hunt_prepare ::
  "app_state \<Rightarrow> int \<Rightarrow> iteration \<Rightarrow> frame \<Rightarrow> app_state
     \<Rightarrow> app_state + string \<times> frame \<times> app_state" where
  \<comment> \<open>the loop body up to the remote call: \<open>Inl\<close> when it leaves the loop by \<open>break\<close>,
      \<open>Inr\<close> with the candidate when it goes on to the call\<close>
  "hunt_prepare r len it f s =
     (case throttle_pause r it s of
        (Break, s) \<Rightarrow> Inl s
      | (Continue, s) \<Rightarrow>
          (case generateUsername r (math_random it) len s of
             (uname, s) \<Rightarrow>
               if uname = ''ERROR_NO_CHARS''
               then (let s = addLog
                               ''Stopping hunt: No characters available for generation based on current settings.''
                               Error s
                     in Inl (case abortController s of
                               Some False \<Rightarrow> s\<lparr>abortController := Some True\<rparr>
                             | _ \<Rightarrow> s))
               else (let f = f\<lparr>currentAttempts := currentAttempts f + 1\<rparr>;
                         s = addLog (''Checking: '' @ uname) Muted s;
                         s = s\<lparr>stats := stats_of f\<rparr>
                     in Inr (uname, f, s))))"

definition hunt_body ::
  "app_state \<Rightarrow> int \<Rightarrow> iteration \<Rightarrow> frame \<Rightarrow> app_state \<Rightarrow> ctl \<times> frame \<times> app_state" where
  "hunt_body r len it f s =
     (case hunt_prepare r len it f s of
        Inl s \<Rightarrow> (Break, f, s)
      | Inr (uname, f, s) \<Rightarrow> hunt_check uname it f s)"

text \<open>
  The loop runs as long as the outside world is scripted: \<open>Break\<close> means that the loop has
  been left, \<open>Continue\<close> that it stands at its head, not aborted, when the script ends.
\<close>

fun hunt_while ::
  "app_state \<Rightarrow> int \<Rightarrow> iteration list \<Rightarrow> frame \<Rightarrow> app_state \<Rightarrow> ctl \<times> frame \<times> app_state" where
  "hunt_while r len [] f s = (if signal_aborted s then (Break, f, s) else (Continue, f, s))"
| "hunt_while r len (it # its) f s =
     (if signal_aborted s then (Break, f, s)
      else (case hunt_body r len it f s of
              (Break, f, s) \<Rightarrow> (Break, f, s)
            | (Continue, f, s) \<Rightarrow> hunt_while r len its f s))"

datatype hunt_result =
    Suspended frame app_state \<comment> \<open>the hunt is still running when the script ends\<close>
  | Returned app_state \<comment> \<open>no hunt is running any more\<close>

definition hunt_finally :: "app_state \<Rightarrow> app_state" where
  "hunt_finally s =
     (let s = s\<lparr>isHunting := False\<rparr>;
          s = s\<lparr>isLoading := False\<rparr>
      in if \<not> signal_aborted s then addLog ''Hunt finished or stopped.'' Info s else s)"

definition hunt_start :: "int \<Rightarrow> app_state \<Rightarrow> app_state" where
  \<comment> \<open>\<open>huntUsernames\<close> up to the loop\<close>
  "hunt_start len s =
     (let s = s\<lparr>isLoading := True\<rparr>;
          s = s\<lparr>isHunting := True\<rparr>;
          s = s\<lparr>logMessages := []\<rparr>;
          s = s\<lparr>stats := \<lparr>attempts = 0, available = 0, taken = 0\<rparr>\<rparr>;
          s = addLog (''Starting hunt for usernames of length '' @ string_of_int len @ ''...'') Info s
      in s\<lparr>abortController := Some False\<rparr>)"

definition huntUsernames ::
  "app_state \<Rightarrow> int \<Rightarrow> iteration list \<Rightarrow> app_state \<Rightarrow> hunt_result" where
  \<comment> \<open>nothing in the loop body throws (the check catches what \<open>fetch\<close> rejects with), so
      the \<open>catch\<close> block has no branch here\<close>
  "huntUsernames r len its s =
     (case hunt_while r len its \<lparr>currentAttempts = 0, currentAvailable = 0, currentTaken = 0\<rparr>
             (hunt_start len s) of
        (Continue, f, s) \<Rightarrow> Suspended f s
      | (Break, f, s) \<Rightarrow> Returned (hunt_finally s))"

text \<open>
  \<open>parseInt\<close> belongs to the host; it is a parameter, with \<open>None\<close> for \<open>NaN\<close>. The handler
  starts the hunt with the closures of the render it was created in, that is with the
  state at the click.
\<close>

definition handleStartHunting ::
  "(string \<Rightarrow> int option) \<Rightarrow> iteration list \<Rightarrow> app_state \<Rightarrow> hunt_result" where
  "handleStartHunting parseInt its s =
     (let invalid = addLog (''Please enter a valid length between ''
                       @ string_of_int USER_INPUT_MIN_LENGTH @ '' and ''
                       @ string_of_int MAX_USERNAME_LENGTH @ ''. GitHub min is ''
                       @ string_of_int MIN_USERNAME_LENGTH @ ''.'') Error s
      in case parseInt (usernameLength s) of
           None \<Rightarrow> Returned invalid
         | Some len \<Rightarrow>
             if len < USER_INPUT_MIN_LENGTH \<or> len > MAX_USERNAME_LENGTH then Returned invalid
             else (let chars = availableChars (excludeNumbers s) (specificNumbersToExclude s) in
                   if length chars = 0
                   then Returned
                          (addLog ''Error: No characters available for username generation. Adjust exclusion settings.''
                             Error s)
                   else huntUsernames s len its
                          (if len > 0 \<and> length chars < 2 \<and> len > 1
                           then addLog ''Warning: The available character set is very small. This may result in many repeated checks or slow progress.''
                                  Info s
                           else s)))"

definition state_of :: "hunt_result \<Rightarrow> app_state" where
  "state_of h = (case h of Suspended f s \<Rightarrow> s | Returned s \<Rightarrow> s)"

section \<open>Scripted runs and observations\<close>

text \<open>
  A scripted iteration: the remote answers with the given status code, nobody presses
  Stop, the random values and the clock are as given.
\<close>

definition scripted :: "nat \<Rightarrow> (nat \<Rightarrow> double) \<Rightarrow> string \<Rightarrow> iteration" where
  "scripted status rnd t =
     \<lparr>stop_in_pause = False, math_random = rnd, fetched = Response status,
      stop_in_fetch = False, now = t, stop_in_error_delay = False, stop_in_delay = False\<rparr>"

definition outcome_log :: "LogMessage \<Rightarrow> bool" where
  \<comment> \<open>a log line that reports a candidate as available or as taken\<close>
  "outcome_log m = (prefix ''AVAILABLE: '' (msg_text m) \<or> prefix ''Taken: '' (msg_text m))"

definition stop_event :: LogMessage where
  "stop_event = \<lparr>msg_text = ''Hunting stopped by user.'', msg_type = Info\<rparr>"

text \<open>
  The number of stop events in the log, plus one while the Stop button is on the page.
\<close>

definition stop_budget :: "app_state \<Rightarrow> nat" where
  "stop_budget s = count_list (logMessages s) stop_event + (if isHunting s then 1 else 0)"

section \<open>Reading the exclusion list\<close>

text \<open>
  The tokens of the exclusion list in the words of the specification: a token counts when
  it trims to one of the ten digits. \<open>join_with\<close> writes a token list back as a
  comma-separated string.
\<close>

definition is_digit_token :: "string \<Rightarrow> bool" where
  "is_digit_token t = (t \<in> set (map (\<lambda>c. [c]) ''0123456789''))"

definition well_formed_tokens :: "string \<Rightarrow> string list" where
  "well_formed_tokens sp = filter is_digit_token (map trim (split_on CHR '','' sp))"

fun join_with :: "char \<Rightarrow> string list \<Rightarrow> string" where
  "join_with sep [] = []"
| "join_with sep [t] = t"
| "join_with sep (t # u # ts) = t @ sep # join_with sep (u # ts)"

section \<open>Properties of the generator\<close>

declare generate_loop.simps [simp del]
declare string_of_nat.simps [simp del]
declare excess_bits.simps [simp del]

lemma letters_in_availableChars:
  "set ''abcdefghijklmnopqrstuvwxyz'' \<subseteq> set (availableChars excl sp)"
  by (simp add: availableChars_def)

lemma availableChars_nonempty: "availableChars excl sp \<noteq> []"
  by (simp add: availableChars_def)

lemma set_charAt: "set (charAt chars k) \<subseteq> set chars"
proof -
  have "0 \<le> k \<Longrightarrow> k < int (length chars) \<Longrightarrow> chars ! nat k \<in> set chars"
    by (rule nth_mem) linarith
  then show ?thesis by (auto simp: charAt_def)
qed

lemma set_generate_loop:
  "set (generate_loop chars rnd len i res) \<subseteq> set res \<union> set chars"
proof (induction chars rnd len i res rule: generate_loop.induct)
  case (1 chars rnd len i result)
  show ?case
  proof (cases "int i < len")
    case True
    with 1 have "set (generate_loop chars rnd len (Suc i)
        (result @ charAt chars (int (floor_of_product (rnd i) (length chars)))))
      \<subseteq> set (result @ charAt chars (int (floor_of_product (rnd i) (length chars)))) \<union> set chars"
      by blast
    with True set_charAt [of chars "(int (floor_of_product (rnd i) (length chars)))"] show ?thesis
      by (subst generate_loop.simps) auto
  next
    case False
    then show ?thesis by (subst generate_loop.simps) simp
  qed
qed

lemma excess_bits_small: "p < 2 ^ 53 \<Longrightarrow> excess_bits p = 0"
  by (simp add: excess_bits.simps [of p])

lemma excess_bits_large: "\<not> p < 2 ^ 53 \<Longrightarrow> excess_bits p = Suc (excess_bits (p div 2))"
  by (simp add: excess_bits.simps [of p])

lemma excess_bits_lower: "0 < excess_bits p \<Longrightarrow> 2 ^ 52 * 2 ^ excess_bits p \<le> p"
proof (induction p rule: excess_bits.induct)
  case (1 p)
  show ?case
  proof (cases "p < 2 ^ 53")
    case True
    with 1(2) show ?thesis by (simp add: excess_bits_small)
  next
    case False
    then have eq: "excess_bits p = Suc (excess_bits (p div 2))"
      by (rule excess_bits_large)
    show ?thesis
    proof (cases "0 < excess_bits (p div 2)")
      case True
      then have "2 ^ 52 * 2 ^ excess_bits (p div 2) \<le> p div 2" using 1(1) False by simp
      then have "2 * (2 ^ 52 * 2 ^ excess_bits (p div 2)) \<le> p" by linarith
      then show ?thesis by (simp add: eq)
    next
      case nil: False
      then have "excess_bits (p div 2) = 0" by simp
      with False show ?thesis by (simp add: eq)
    qed
  qed
qed

lemma round_half_even_upper:
  "0 < s \<Longrightarrow> round_half_even p s * 2 ^ s \<le> p + 2 ^ (s - 1)"
proof -
  assume s: "0 < s"
  let ?q = "p div 2 ^ s" and ?r = "p mod 2 ^ s"
  have p: "?q * 2 ^ s + ?r = p" by (rule div_mult_mod_eq)
  have two: "(2::nat) ^ s = 2 * 2 ^ (s - 1)" using s by (cases s) auto
  have down: "?q * 2 ^ s \<le> p + 2 ^ (s - 1)" using p by linarith
  have up: "2 ^ (s - 1) \<le> ?r \<Longrightarrow> (?q + 1) * 2 ^ s \<le> p + 2 ^ (s - 1)"
  proof -
    assume h: "2 ^ (s - 1) \<le> ?r"
    have "(?q + 1) * 2 ^ s = ?q * 2 ^ s + 2 ^ s" by (simp add: algebra_simps)
    also have "\<dots> = ?q * 2 ^ s + 2 ^ (s - 1) + 2 ^ (s - 1)" using two by simp
    also have "\<dots> \<le> ?q * 2 ^ s + ?r + 2 ^ (s - 1)" using h by simp
    finally show ?thesis using p by simp
  qed
  show ?thesis
    using s down up by (auto simp: round_half_even_def Let_def)
qed

lemma floor_of_product_in_range:
  assumes "is_random_value d" "0 < n"
  shows "floor_of_product d n < n"
proof -
  let ?p = "mant d * n" and ?s = "excess_bits (mant d * n)"
  have m53: "mant d < 2 ^ 53" and mj: "mant d < 2 ^ expo d"
    using assms(1) by (simp_all add: is_random_value_def)
  have gap: "?p + n \<le> n * 2 ^ expo d"
  proof -
    have "mant d + 1 \<le> 2 ^ expo d" using mj by simp
    then have "(mant d + 1) * n \<le> 2 ^ expo d * n" by (rule mult_le_mono1)
    then show ?thesis by (simp add: algebra_simps)
  qed
  have "round_half_even ?p ?s * 2 ^ ?s < n * 2 ^ expo d"
  proof (cases "?s = 0")
    case True
    moreover have "?p < n * 2 ^ expo d" using gap assms(2) by linarith
    ultimately show ?thesis by (simp add: round_half_even_def)
  next
    case False
    then have s: "0 < ?s" by simp
    have low: "2 ^ 52 * 2 ^ ?s \<le> ?p" using s by (rule excess_bits_lower)
    have two: "(2::nat) ^ ?s = 2 * 2 ^ (?s - 1)" using s by (cases ?s) auto
    have "2 ^ (?s - 1) < n"
    proof (rule ccontr)
      assume "\<not> 2 ^ (?s - 1) < n"
      then have "mant d * n \<le> mant d * 2 ^ (?s - 1)" by simp
      moreover have "mant d * 2 ^ (?s - 1) < 2 ^ 53 * 2 ^ (?s - 1)" using m53 by simp
      moreover have "(2::nat) ^ 53 * 2 ^ (?s - 1) = 2 ^ 52 * 2 ^ ?s" by (simp add: two)
      ultimately show False using low by linarith
    qed
    with round_half_even_upper [OF s, of ?p] gap show ?thesis by linarith
  qed
  then show ?thesis
    by (simp add: floor_of_product_def Let_def less_mult_imp_div_less)
qed

lemma length_generate_loop:
  assumes "\<forall>k. is_random_value (rnd k)" "chars \<noteq> []"
  shows "length (generate_loop chars rnd len i res) = length res + nat (len - int i)"
  using assms
proof (induction chars rnd len i res rule: generate_loop.induct)
  case (1 chars rnd len i result)
  show ?case
  proof (cases "int i < len")
    case True
    have "length (charAt chars (int (floor_of_product (rnd i) (length chars)))) = 1"
      using floor_of_product_in_range [of "rnd i" "length chars"] 1(2,3)
      by (simp add: charAt_def)
    moreover have "length (generate_loop chars rnd len (Suc i)
        (result @ charAt chars (int (floor_of_product (rnd i) (length chars)))))
      = length (result @ charAt chars (int (floor_of_product (rnd i) (length chars)))) + nat (len - int (Suc i))"
      using 1 True by blast
    ultimately show ?thesis using True
      by (subst generate_loop.simps) (simp add: nat_diff_distrib)
  next
    case False
    then show ?thesis by (subst generate_loop.simps) simp
  qed
qed

lemma set_remove_all: "set (remove_all d s) \<subseteq> set s"
  by (auto simp: remove_all_def split: list.splits)

lemma set_fold_remove_all: "set (fold remove_all ds s) \<subseteq> set s"
proof (induction ds arbitrary: s)
  case Nil
  show ?case by simp
next
  case (Cons d ds)
  have "set (fold remove_all ds (remove_all d s)) \<subseteq> set (remove_all d s)"
    by (rule Cons.IH)
  with set_remove_all [of d s] show ?case by auto
qed

lemma set_numbersToInclude: "set (numbersToInclude sp) \<subseteq> set ''0123456789''"
proof (cases "trim sp \<noteq> []")
  case True
  then have "numbersToInclude sp = fold remove_all (excludedDigits sp) ''0123456789''"
    by (simp add: numbersToInclude_def)
  then show ?thesis by (simp only: set_fold_remove_all)
next
  case False
  then have "numbersToInclude sp = ''0123456789''"
    by (simp add: numbersToInclude_def)
  then show ?thesis by (simp only: subset_refl)
qed

lemma set_guarded_append:
  "set N \<subseteq> D \<Longrightarrow> set (L @ (if \<not> e then N else [])) \<subseteq> set L \<union> D"
  by auto

lemma set_availableChars:
  "set (availableChars excl sp) \<subseteq> set ''abcdefghijklmnopqrstuvwxyz'' \<union> set ''0123456789''"
  unfolding availableChars_def by (rule set_guarded_append) (rule set_numbersToInclude)

lemma generate_loop_not_sentinel:
  "generate_loop (availableChars excl sp) rnd len 0 [] \<noteq> ''ERROR_NO_CHARS''"
proof
  assume eq: "generate_loop (availableChars excl sp) rnd len 0 [] = ''ERROR_NO_CHARS''"
  have "CHR ''E'' \<in> set (generate_loop (availableChars excl sp) rnd len 0 [])"
    unfolding eq by simp
  then have "CHR ''E'' \<in> set (availableChars excl sp)"
    using set_generate_loop [of "availableChars excl sp" rnd len 0 "[]"] by auto
  then have "CHR ''E'' \<in> set ''abcdefghijklmnopqrstuvwxyz'' \<union> set ''0123456789''"
    using set_availableChars [of excl sp] by (rule set_mp [rotated])
  then show False by simp
qed

lemma generateUsername_eq:
  "generateUsername r rnd len s =
     (generate_loop (availableChars (excludeNumbers r) (specificNumbersToExclude r)) rnd len 0 [], s)"
  by (simp add: generateUsername_def Let_def availableChars_nonempty)


lemma dropWhile_rev_nonempty:
  assumes "dropWhile P s \<noteq> []"
  shows "dropWhile P (rev (dropWhile P s)) \<noteq> []"
proof -
  obtain x xs where eq: "dropWhile P s = x # xs"
    using assms by (cases "dropWhile P s") auto
  then have "\<not> P x" using hd_dropWhile [of P s] by auto
  moreover have "x \<in> set (rev (dropWhile P s))" using eq by simp
  ultimately show ?thesis by (auto simp: dropWhile_eq_Nil_conv)
qed

lemma trim_empty_all_whitespace:
  assumes "trim s = []"
  shows "\<forall>c \<in> set s. is_whitespace c"
proof -
  have "dropWhile is_whitespace (rev (dropWhile is_whitespace s)) = []"
    using assms by (simp add: trim_def)
  then have "dropWhile is_whitespace s = []"
    using dropWhile_rev_nonempty [of is_whitespace s] by blast
  then show ?thesis by (simp add: dropWhile_eq_Nil_conv)
qed

lemma split_on_no_sep: "sep \<notin> set s \<Longrightarrow> split_on sep s = [s]"
  by (induction s) auto

lemma split_on_append_sep:
  "sep \<notin> set t \<Longrightarrow> split_on sep (t @ sep # rest) = t # split_on sep rest"
  by (induction t) auto

lemma comma_not_whitespace: "\<not> is_whitespace CHR '',''"
  by (simp add: is_whitespace_def)

lemma excludedDigits_blank:
  assumes "trim sp = []"
  shows "excludedDigits sp = []"
proof -
  have "CHR '','' \<notin> set sp"
    using trim_empty_all_whitespace [OF assms] comma_not_whitespace by blast
  then have "split_on CHR '','' sp = [sp]" by (rule split_on_no_sep)
  then show ?thesis using assms by (simp add: excludedDigits_def)
qed

lemma numbersToInclude_fold:
  "numbersToInclude sp = fold remove_all (excludedDigits sp) ''0123456789''"
  using excludedDigits_blank [of sp] by (cases "trim sp = []") (simp_all add: numbersToInclude_def)

lemma fold_remove_all_filter:
  "\<forall>d \<in> set ds. length d = 1 \<Longrightarrow> fold remove_all ds s = filter (\<lambda>c. [c] \<notin> set ds) s"
proof (induction ds arbitrary: s)
  case Nil
  show ?case by simp
next
  case (Cons d ds)
  then obtain c where d: "d = [c]" by (cases d) auto
  have "fold remove_all (d # ds) s = fold remove_all ds (filter (\<lambda>x. x \<noteq> c) s)"
    by (simp add: d remove_all_def)
  also have "\<dots> = filter (\<lambda>c. [c] \<notin> set ds) (filter (\<lambda>x. x \<noteq> c) s)"
    using Cons by simp
  also have "\<dots> = filter (\<lambda>x. [x] \<notin> set (d # ds)) s"
    by (auto simp: d intro: filter_cong)
  finally show ?case .
qed

lemma excludedDigits_single: "\<forall>d \<in> set (excludedDigits sp). length d = 1"
  by (simp add: excludedDigits_def)

lemma numbersToInclude_filter:
  "numbersToInclude sp = filter (\<lambda>c. [c] \<notin> set (excludedDigits sp)) ''0123456789''"
  unfolding numbersToInclude_fold by (rule fold_remove_all_filter) (rule excludedDigits_single)


lemma digit_token_cases:
  "is_digit_token d \<Longrightarrow> \<exists>c. d = [c] \<and> c \<in> set ''0123456789''"
  by (auto simp: is_digit_token_def)

lemma str_includes_digit: "str_includes ''0123456789'' [c] = (c \<in> set ''0123456789'')"
  by auto

lemma is_digit_token_single: "is_digit_token [c] = (c \<in> set ''0123456789'')"
  by (auto simp: is_digit_token_def)

lemma code_filter_is_digit_token:
  "(length d = 1 \<and> str_includes ''0123456789'' d) = is_digit_token d"
proof (cases "\<exists>c. d = [c]")
  case True
  then obtain c where "d = [c]" by blast
  then show ?thesis by (simp only: str_includes_digit is_digit_token_single) simp
next
  case False
  then have "length d \<noteq> 1" by (cases d) auto
  moreover have "\<not> is_digit_token d" using False digit_token_cases by blast
  ultimately show ?thesis by simp
qed

lemma excludedDigits_well_formed: "excludedDigits sp = well_formed_tokens sp"
  by (simp only: excludedDigits_def well_formed_tokens_def code_filter_is_digit_token)

lemma digit_not_special:
  "c \<in> set ''0123456789'' \<Longrightarrow> \<not> is_whitespace c \<and> c \<noteq> CHR '',''"
  by (auto simp: is_whitespace_def)

lemma trim_single: "\<not> is_whitespace c \<Longrightarrow> trim [c] = [c]"
  by (simp add: trim_def)

lemma split_on_join_with:
  "ts \<noteq> [] \<Longrightarrow> \<forall>t \<in> set ts. sep \<notin> set t \<Longrightarrow> split_on sep (join_with sep ts) = ts"
proof (induction sep ts rule: join_with.induct)
  case (1 sep)
  then show ?case by simp
next
  case (2 sep t)
  then show ?case by (simp add: split_on_no_sep)
next
  case (3 sep t u ts)
  then have "split_on sep (join_with sep (u # ts)) = u # ts" by simp
  moreover have "sep \<notin> set t" using 3 by simp
  ultimately show ?case by (simp add: split_on_append_sep)
qed

lemma well_formed_tokens_join:
  assumes "\<forall>d \<in> set ds. is_digit_token d"
  shows "well_formed_tokens (join_with CHR '','' ds) = ds"
proof (cases "ds = []")
  case True
  then show ?thesis by (simp add: well_formed_tokens_def trim_def is_digit_token_def)
next
  case False
  have nosep: "\<forall>t \<in> set ds. CHR '','' \<notin> set t"
    using assms digit_token_cases digit_not_special by fastforce
  have "map trim ds = ds"
  proof (rule map_idI)
    fix d assume "d \<in> set ds"
    then obtain c where "d = [c]" "c \<in> set ''0123456789''"
      using assms digit_token_cases by blast
    then show "trim d = d" using digit_not_special trim_single by blast
  qed
  moreover have "split_on CHR '','' (join_with CHR '','' ds) = ds"
    using False nosep by (rule split_on_join_with)
  ultimately show ?thesis using assms by (simp add: well_formed_tokens_def)
qed

lemma well_formed_tokens_idem:
  "well_formed_tokens (join_with CHR '','' (well_formed_tokens sp)) = well_formed_tokens sp"
  by (rule well_formed_tokens_join) (simp add: well_formed_tokens_def)

lemma availableChars_tokens:
  "availableChars excl sp =
     ''abcdefghijklmnopqrstuvwxyz'' @
     (if \<not> excl then filter (\<lambda>c. [c] \<notin> set (well_formed_tokens sp)) ''0123456789'' else [])"
  by (simp only: availableChars_def numbersToInclude_filter excludedDigits_well_formed)


text \<open>
  Claim C5. For a length of at least 1 and a non-empty derived alphabet, and with every
  value of \<open>Math.random()\<close> a double at least 0 and less than 1, the index
  \<open>Math.floor(Math.random() * availableChars.length)\<close> computed in double arithmetic is
  below the length of the alphabet, and
  \<open>generateUsername\<close> returns a string of exactly \<open>length\<close> characters, each of them a
  character of the derived alphabet.
\<close>

theorem generateUsername_length_alphabet:
  assumes "1 \<le> len"
    and "\<forall>i. is_random_value (rnd i)"
    and "availableChars (excludeNumbers r) (specificNumbersToExclude r) \<noteq> []"
  shows "length (fst (generateUsername r rnd len s)) = nat len \<and>
         set (fst (generateUsername r rnd len s))
           \<subseteq> set (availableChars (excludeNumbers r) (specificNumbersToExclude r))"
proof -
  let ?chars = "availableChars (excludeNumbers r) (specificNumbersToExclude r)"
  have "length (generate_loop ?chars rnd len 0 []) = nat len"
    using length_generate_loop [OF assms(2,3), of len 0 "[]"] by simp
  moreover have "set (generate_loop ?chars rnd len 0 []) \<subseteq> set ?chars"
    using set_generate_loop [of ?chars rnd len 0 "[]"] by simp
  ultimately show ?thesis by (simp add: generateUsername_eq)
qed

theorem generateUsername_length_alphabet_witness:
  "(1::int) \<le> 3 \<and>
   is_random_value \<lparr>mant = 5754599523862300, expo = 53\<rparr> \<and>
   availableChars (excludeNumbers initial_state) (specificNumbersToExclude initial_state) \<noteq> [] \<and>
   floor_of_product \<lparr>mant = 5754599523862300, expo = 53\<rparr> 36 = 23 \<and>
   fst (generateUsername initial_state (\<lambda>i. \<lparr>mant = 5754599523862300, expo = 53\<rparr>) 3
          initial_state) = ''xxx'' \<and>
   length (fst (generateUsername initial_state (\<lambda>i. \<lparr>mant = 5754599523862300, expo = 53\<rparr>) 3
                  initial_state)) = nat 3 \<and>
   set (fst (generateUsername initial_state (\<lambda>i. \<lparr>mant = 5754599523862300, expo = 53\<rparr>) 3
               initial_state))
     \<subseteq> set (availableChars (excludeNumbers initial_state) (specificNumbersToExclude initial_state))"
proof -
  have ix: "floor_of_product \<lparr>mant = 5754599523862300, expo = 53\<rparr> 36 = 23"
    by (simp add: floor_of_product_def round_half_even_def excess_bits_small excess_bits_large
        Let_def)
  have eq: "fst (generateUsername initial_state (\<lambda>i. \<lparr>mant = 5754599523862300, expo = 53\<rparr>) 3
      initial_state) = ''xxx''"
  proof -
    have len: "length ''abcdefghijklmnopqrstuvwxyz0123456789'' = 36"
      by simp
    have chars: "availableChars (excludeNumbers initial_state)
        (specificNumbersToExclude initial_state) = ''abcdefghijklmnopqrstuvwxyz0123456789''"
      by (simp add: availableChars_def numbersToInclude_def trim_def initial_state_def)
    have pick: "charAt ''abcdefghijklmnopqrstuvwxyz0123456789'' 23 = ''x''"
      by (simp add: charAt_def)
    show ?thesis
      unfolding generateUsername_eq chars fst_conv
      by (simp add: generate_loop.simps len ix pick del: list.size)
  qed
  have rv: "is_random_value \<lparr>mant = 5754599523862300, expo = 53\<rparr>"
    by (simp add: is_random_value_def)
  have ne: "availableChars (excludeNumbers initial_state) (specificNumbersToExclude initial_state) \<noteq> []"
    by (rule availableChars_nonempty)
  show ?thesis
    using generateUsername_length_alphabet
      [of 3 "\<lambda>i. \<lparr>mant = 5754599523862300, expo = 53\<rparr>" initial_state initial_state] eq ne rv ix
    by simp
qed

text \<open>
  Claim C6. When \<open>excludeNumbers\<close> is set, no generated candidate contains a digit,
  whatever the exclusion list, the length and the random values are.
\<close>

theorem no_digit_when_numbers_excluded:
  assumes "excludeNumbers r"
  shows "set (fst (generateUsername r rnd len s)) \<inter> set ''0123456789'' = {}"
proof -
  have "availableChars (excludeNumbers r) (specificNumbersToExclude r) = ''abcdefghijklmnopqrstuvwxyz''"
    using assms by (simp add: availableChars_def)
  then have "set (fst (generateUsername r rnd len s)) \<subseteq> set ''abcdefghijklmnopqrstuvwxyz''"
    using set_generate_loop [of "''abcdefghijklmnopqrstuvwxyz''" rnd len 0 "[]"]
    by (simp only: generateUsername_eq fst_conv) simp
  moreover have "set ''abcdefghijklmnopqrstuvwxyz'' \<inter> set ''0123456789'' = {}"
    by simp
  ultimately show ?thesis by blast
qed

theorem no_digit_when_numbers_excluded_witness:
  "excludeNumbers (initial_state\<lparr>excludeNumbers := True, specificNumbersToExclude := ''1,2''\<rparr>) \<and>
   set (fst (generateUsername
              (initial_state\<lparr>excludeNumbers := True, specificNumbersToExclude := ''1,2''\<rparr>)
              (\<lambda>i. double_half) 3 initial_state)) \<inter> set ''0123456789'' = {}"
  using no_digit_when_numbers_excluded
    [of "initial_state\<lparr>excludeNumbers := True, specificNumbersToExclude := ''1,2''\<rparr>"
        "\<lambda>i. double_half" 3 initial_state]
  by simp

text \<open>
  Claim C7. Two exclusion lists that hold the same set of digits, in any order and with
  any repetition, derive the same alphabet (the same string, hence the same set).
\<close>

theorem alphabet_independent_of_exclusion_order:
  assumes "set (well_formed_tokens sp1) = set (well_formed_tokens sp2)"
  shows "availableChars excl sp1 = availableChars excl sp2"
  using assms by (simp only: availableChars_tokens)

theorem alphabet_independent_of_exclusion_order_witness:
  "set (well_formed_tokens ''1,3,5'') = set (well_formed_tokens ''5,3,1'') \<and>
   availableChars False ''1,3,5'' = availableChars False ''5,3,1'' \<and>
   availableChars False ''5,3,1'' = ''abcdefghijklmnopqrstuvwxyz0246789''"
proof -
  have t1: "well_formed_tokens ''1,3,5'' = [''1'', ''3'', ''5'']"
    by (simp add: well_formed_tokens_def trim_def is_whitespace_def is_digit_token_def)
  have t2: "well_formed_tokens ''5,3,1'' = [''5'', ''3'', ''1'']"
    by (simp add: well_formed_tokens_def trim_def is_whitespace_def is_digit_token_def)
  have h: "set (well_formed_tokens ''1,3,5'') = set (well_formed_tokens ''5,3,1'')"
    unfolding t1 t2 by auto
  have v: "availableChars False ''5,3,1'' = ''abcdefghijklmnopqrstuvwxyz0246789''"
    by (simp add: availableChars_tokens t2)
  show ?thesis
    using alphabet_independent_of_exclusion_order [OF h, of False] h v by simp
qed

lemma handleStartHunting_eq:
  "handleStartHunting parseInt its s =
     (case parseInt (usernameLength s) of
        None \<Rightarrow>
          Returned (addLog ''Please enter a valid length between 3 and 39. GitHub min is 1.'' Error s)
      | Some n \<Rightarrow>
          if n < 3 \<or> n > 39
          then Returned (addLog ''Please enter a valid length between 3 and 39. GitHub min is 1.'' Error s)
          else huntUsernames s n its s)"
proof -
  have big: "\<not> length (availableChars (excludeNumbers s) (specificNumbersToExclude s)) < 2"
    by (simp add: availableChars_def)
  have msg: "''Please enter a valid length between '' @ string_of_int USER_INPUT_MIN_LENGTH
      @ '' and '' @ string_of_int MAX_USERNAME_LENGTH @ ''. GitHub min is ''
      @ string_of_int MIN_USERNAME_LENGTH @ ''.''
    = ''Please enter a valid length between 3 and 39. GitHub min is 1.''"
    by (simp add: string_of_int_def USER_INPUT_MIN_LENGTH_def MAX_USERNAME_LENGTH_def
        MIN_USERNAME_LENGTH_def digit_char_def string_of_nat.simps)
  show ?thesis
    unfolding handleStartHunting_def msg Let_def
    using big availableChars_nonempty [of "excludeNumbers s" "specificNumbersToExclude s"]
    by (simp add: USER_INPUT_MIN_LENGTH_def MAX_USERNAME_LENGTH_def split: option.splits)
qed

text \<open>
  Claim C9. Whatever the configuration, the derived alphabet holds the 26 lowercase
  letters and is not empty. So \<open>generateUsername\<close> never logs its internal error nor
  returns the sentinel, the loop's test for the sentinel never succeeds, and
  \<open>handleStartHunting\<close> never refuses for want of characters: it refuses on the length
  alone and otherwise starts the hunt.
\<close>

theorem alphabet_never_empty:
  "set ''abcdefghijklmnopqrstuvwxyz'' \<subseteq> set (availableChars excl sp) \<and>
   availableChars excl sp \<noteq> [] \<and>
   generateUsername r rnd len s =
     (generate_loop (availableChars (excludeNumbers r) (specificNumbersToExclude r)) rnd len 0 [], s) \<and>
   fst (generateUsername r rnd len s) \<noteq> ''ERROR_NO_CHARS'' \<and>
   handleStartHunting parseInt its s =
     (case parseInt (usernameLength s) of
        None \<Rightarrow>
          Returned (addLog ''Please enter a valid length between 3 and 39. GitHub min is 1.'' Error s)
      | Some n \<Rightarrow>
          if n < 3 \<or> n > 39
          then Returned (addLog ''Please enter a valid length between 3 and 39. GitHub min is 1.'' Error s)
          else huntUsernames s n its s)"
  using letters_in_availableChars [of excl sp] availableChars_nonempty [of excl sp]
    generateUsername_eq [of r rnd len s]
    generate_loop_not_sentinel [of "excludeNumbers r" "specificNumbersToExclude r" rnd len]
    handleStartHunting_eq [of parseInt its s]
  by (simp only: fst_conv simp_thms)

theorem alphabet_never_empty_witness:
  "set ''abcdefghijklmnopqrstuvwxyz'' \<subseteq> set (availableChars False ''0,1,2,3,4,5,6,7,8,9'') \<and>
   availableChars False ''0,1,2,3,4,5,6,7,8,9'' = ''abcdefghijklmnopqrstuvwxyz'' \<and>
   handleStartHunting (\<lambda>_. Some 3) []
     (initial_state\<lparr>specificNumbersToExclude := ''0,1,2,3,4,5,6,7,8,9''\<rparr>)
   = huntUsernames (initial_state\<lparr>specificNumbersToExclude := ''0,1,2,3,4,5,6,7,8,9''\<rparr>) 3 []
       (initial_state\<lparr>specificNumbersToExclude := ''0,1,2,3,4,5,6,7,8,9''\<rparr>)"
proof -
  have t: "well_formed_tokens ''0,1,2,3,4,5,6,7,8,9''
      = map (\<lambda>c. [c]) ''0123456789''"
    by (simp add: well_formed_tokens_def trim_def is_whitespace_def is_digit_token_def)
  have v: "availableChars False ''0,1,2,3,4,5,6,7,8,9'' = ''abcdefghijklmnopqrstuvwxyz''"
    by (simp add: availableChars_tokens t)
  show ?thesis
    using alphabet_never_empty [where excl = False and sp = "''0,1,2,3,4,5,6,7,8,9''"
        and parseInt = "\<lambda>_. Some 3" and its = "[]"
        and s = "initial_state\<lparr>specificNumbersToExclude := ''0,1,2,3,4,5,6,7,8,9''\<rparr>"] v
    by simp
qed

text \<open>
  Claim C10. Only the tokens of the exclusion list that trim to one digit count. The
  alphabet derived from a list is the alphabet derived from its well-formed tokens alone,
  a digit is left out exactly when some token trims to it, and generation with the list
  equals generation with its well-formed tokens.
\<close>

theorem malformed_tokens_ignored:
  "availableChars excl sp = availableChars excl (join_with CHR '','' (well_formed_tokens sp)) \<and>
   set (numbersToInclude sp)
     = set ''0123456789'' - {c. [c] \<in> set (map trim (split_on CHR '','' sp))} \<and>
   generateUsername (r\<lparr>specificNumbersToExclude := sp\<rparr>) rnd len s
     = generateUsername
         (r\<lparr>specificNumbersToExclude := join_with CHR '','' (well_formed_tokens sp)\<rparr>) rnd len s"
proof -
  have a: "availableChars excl sp = availableChars excl (join_with CHR '','' (well_formed_tokens sp))"
    for excl
    by (simp only: availableChars_tokens well_formed_tokens_idem)
  have "c \<in> set ''0123456789'' \<Longrightarrow>
      ([c] \<in> set (well_formed_tokens sp)) = ([c] \<in> set (map trim (split_on CHR '','' sp)))" for c
  proof -
    assume "c \<in> set ''0123456789''"
    then have "is_digit_token [c]" by (simp only: is_digit_token_single)
    then show ?thesis by (simp add: well_formed_tokens_def)
  qed
  then have b: "set (numbersToInclude sp)
     = set ''0123456789'' - {c. [c] \<in> set (map trim (split_on CHR '','' sp))}"
    unfolding numbersToInclude_filter excludedDigits_well_formed set_filter by blast
  have c: "generateUsername (r\<lparr>specificNumbersToExclude := sp\<rparr>) rnd len s
     = generateUsername
         (r\<lparr>specificNumbersToExclude := join_with CHR '','' (well_formed_tokens sp)\<rparr>) rnd len s"
    using a [of "excludeNumbers r"] by (simp add: generateUsername_eq)
  from a b c show ?thesis by blast
qed

theorem malformed_tokens_ignored_witness:
  "well_formed_tokens '' 1 ,x,12,,3'' = [''1'', ''3''] \<and>
   join_with CHR '','' (well_formed_tokens '' 1 ,x,12,,3'') = ''1,3'' \<and>
   availableChars False '' 1 ,x,12,,3'' = availableChars False ''1,3'' \<and>
   availableChars False ''1,3'' = ''abcdefghijklmnopqrstuvwxyz02456789''"
proof -
  have t: "well_formed_tokens '' 1 ,x,12,,3'' = [''1'', ''3'']"
    by (simp add: well_formed_tokens_def trim_def is_whitespace_def is_digit_token_def)
  have t': "well_formed_tokens ''1,3'' = [''1'', ''3'']"
    by (simp add: well_formed_tokens_def trim_def is_whitespace_def is_digit_token_def)
  have v: "availableChars False ''1,3'' = ''abcdefghijklmnopqrstuvwxyz02456789''"
    by (simp add: availableChars_tokens t')
  show ?thesis
    using malformed_tokens_ignored [of False "'' 1 ,x,12,,3''" initial_state "\<lambda>i. double_zero" 3 initial_state] t v
    by simp
qed

section \<open>Properties of the hunt\<close>

lemma handleStopHunting_fields:
  "stats (handleStopHunting s) = stats s"
  "availableUsernames (handleStopHunting s) = availableUsernames s"
  "isThrottled (handleStopHunting s) = False"
  "isHunting (handleStopHunting s) = False"
  "logMessages (handleStopHunting s) = logMessages s @ [stop_event]"
  "effects (handleStopHunting s) = effects s"
  by (simp_all add: handleStopHunting_def abort_def addLog_def stop_event_def Let_def
      split: option.splits)

lemma click_stop_fields:
  "stats (click_stop s) = stats s"
  "availableUsernames (click_stop s) = availableUsernames s"
  "effects (click_stop s) = effects s"
  "filter outcome_log (logMessages (click_stop s)) = filter outcome_log (logMessages s)"
  by (simp_all add: click_stop_def handleStopHunting_fields stop_event_def outcome_log_def)

lemma addLog_fields:
  "stats (addLog txt ty s) = stats s"
  "availableUsernames (addLog txt ty s) = availableUsernames s"
  "effects (addLog txt ty s) = effects s"
  "abortController (addLog txt ty s) = abortController s"
  "isHunting (addLog txt ty s) = isHunting s"
  "isThrottled (addLog txt ty s) = isThrottled s"
  "logMessages (addLog txt ty s) = logMessages s @ [\<lparr>msg_text = txt, msg_type = ty\<rparr>]"
  "signal_aborted (addLog txt ty s) = signal_aborted s"
  by (simp_all add: addLog_def signal_aborted_def)

lemma delay_fields:
  "stats (delay ms b s) = stats s"
  "availableUsernames (delay ms b s) = availableUsernames s"
  "filter outcome_log (logMessages (delay ms b s)) = filter outcome_log (logMessages s)"
  by (simp_all add: delay_def Let_def click_stop_fields)

lemma check_fields:
  "stats (snd (checkUsernameAvailability u it s)) = stats s"
  "availableUsernames (snd (checkUsernameAvailability u it s)) = availableUsernames s"
  "filter outcome_log (logMessages (snd (checkUsernameAvailability u it s)))
     = filter outcome_log (logMessages s)"
  by (simp_all add: checkUsernameAvailability_def Let_def click_stop_fields addLog_fields
      outcome_log_def split: fetch_result.splits)

lemma click_stop_hunting:
  assumes "isHunting s"
  shows "click_stop s = handleStopHunting s" and "isHunting (click_stop s) = False"
  using assms by (simp_all add: click_stop_def handleStopHunting_fields)

lemma click_stop_stopped: "\<not> isHunting s \<Longrightarrow> click_stop s = s"
  by (simp add: click_stop_def)

lemma click_stop_idem: "click_stop (click_stop s) = click_stop s"
  by (simp add: click_stop_def handleStopHunting_fields)

lemma click_stop_repeated: "(click_stop ^^ Suc n) s = click_stop s"
  by (induction n) (simp_all add: click_stop_idem)

text \<open>
  Claim C3. The page dispatches a stop through its Stop button alone, which calls
  \<open>handleStopHunting\<close> and is rendered only while \<open>isHunting\<close> is set. Stopping once or
  any number of times gives the same state; the counters and the list of found usernames
  are never changed; stopping a session that is hunting clears the throttle flag and logs
  "Hunting stopped by user." exactly once however often the stop is repeated; stopping a
  session that is already stopped changes nothing.
\<close>

theorem stop_is_idempotent:
  "(click_stop ^^ Suc n) s = click_stop s \<and>
   stats ((click_stop ^^ Suc n) s) = stats s \<and>
   availableUsernames ((click_stop ^^ Suc n) s) = availableUsernames s \<and>
   (isHunting s \<longrightarrow>
      isThrottled ((click_stop ^^ Suc n) s) = False \<and>
      isHunting ((click_stop ^^ Suc n) s) = False \<and>
      logMessages ((click_stop ^^ Suc n) s) = logMessages s @ [stop_event] \<and>
      count_list (logMessages ((click_stop ^^ Suc n) s)) stop_event =
        count_list (logMessages s) stop_event + 1) \<and>
   (\<not> isHunting s \<longrightarrow> (click_stop ^^ Suc n) s = s)"
proof -
  have rep: "(click_stop ^^ Suc n) s = click_stop s"
    by (rule click_stop_repeated)
  have frame: "stats (click_stop s) = stats s \<and> availableUsernames (click_stop s) = availableUsernames s"
    by (simp add: click_stop_fields)
  have hunting: "isThrottled (click_stop s) = False \<and> isHunting (click_stop s) = False \<and>
      logMessages (click_stop s) = logMessages s @ [stop_event] \<and>
      count_list (logMessages (click_stop s)) stop_event = count_list (logMessages s) stop_event + 1"
    if "isHunting s"
    using that by (simp add: click_stop_hunting(1) handleStopHunting_fields)
  have stopped: "click_stop s = s" if "\<not> isHunting s"
    using that by (rule click_stop_stopped)
  show ?thesis
    unfolding rep using frame hunting stopped by blast
qed

theorem stop_is_idempotent_witness:
  "isHunting ((hunt_start 3 initial_state)\<lparr>isThrottled := True\<rparr>) \<and>
   (click_stop ^^ 3) ((hunt_start 3 initial_state)\<lparr>isThrottled := True\<rparr>)
     = click_stop ((hunt_start 3 initial_state)\<lparr>isThrottled := True\<rparr>) \<and>
   isThrottled ((click_stop ^^ 3) ((hunt_start 3 initial_state)\<lparr>isThrottled := True\<rparr>)) = False \<and>
   logMessages ((click_stop ^^ 3) ((hunt_start 3 initial_state)\<lparr>isThrottled := True\<rparr>))
     = [\<lparr>msg_text = ''Starting hunt for usernames of length 3...'', msg_type = Info\<rparr>,
        stop_event] \<and>
   stats ((click_stop ^^ 3) ((hunt_start 3 initial_state)\<lparr>isThrottled := True\<rparr>))
     = \<lparr>attempts = 0, available = 0, taken = 0\<rparr>"
proof -
  let ?s = "(hunt_start 3 initial_state)\<lparr>isThrottled := True\<rparr>"
  have h: "isHunting ?s"
    by (simp add: hunt_start_def Let_def addLog_def)
  have l: "logMessages ?s
      = [\<lparr>msg_text = ''Starting hunt for usernames of length 3...'', msg_type = Info\<rparr>]"
    by (simp add: hunt_start_def Let_def addLog_def string_of_int_def string_of_nat.simps
        digit_char_def)
  have st: "stats ?s = \<lparr>attempts = 0, available = 0, taken = 0\<rparr>"
    by (simp add: hunt_start_def Let_def addLog_def)
  define t where "t = (click_stop ^^ Suc 2) ?s"
  have three: "(3::nat) = Suc 2" by simp
  have e: "(click_stop ^^ 3) ?s = t"
    unfolding t_def by (simp only: three)
  have facts: "t = click_stop ?s" "stats t = stats ?s" "isThrottled t = False"
    "logMessages t = logMessages ?s @ [stop_event]"
    using stop_is_idempotent [of 2 ?s] h unfolding t_def by blast+
  have lg: "logMessages t
      = [\<lparr>msg_text = ''Starting hunt for usernames of length 3...'', msg_type = Info\<rparr>,
         stop_event]"
    using facts(4) l by simp
  have sg: "stats t = \<lparr>attempts = 0, available = 0, taken = 0\<rparr>"
    using facts(2) st by simp
  show ?thesis
    unfolding e using h facts(1,3) lg sg by blast
qed

lemma process_result_au:
  "availableUsernames (snd (process_result u it res f s)) =
     availableUsernames s @
       (if res = CheckAvailable then [\<lparr>timestamp = now it, username = u\<rparr>] else [])"
  by (simp add: process_result_def Let_def addLog_fields delay_fields split: outcome.splits)

lemma hunt_check_au:
  "prefix (availableUsernames s) (availableUsernames (snd (snd (hunt_check u it f s))))"
  by (simp add: hunt_check_def split_beta Let_def addLog_fields delay_fields check_fields
      process_result_au)

lemma throttle_pause_au:
  "availableUsernames (snd (throttle_pause r it s)) = availableUsernames s"
  by (simp add: throttle_pause_def Let_def addLog_fields delay_fields)

lemma hunt_prepare_au:
  "hunt_prepare r len it f s = Inl s' \<Longrightarrow> availableUsernames s' = availableUsernames s"
  "hunt_prepare r len it f s = Inr (u, f', s') \<Longrightarrow> availableUsernames s' = availableUsernames s"
  using throttle_pause_au [of r it s]
  by (auto simp: hunt_prepare_def generateUsername_eq generate_loop_not_sentinel Let_def
      addLog_fields split: prod.splits ctl.splits if_splits)

lemma hunt_body_au:
  "prefix (availableUsernames s) (availableUsernames (snd (snd (hunt_body r len it f s))))"
proof (cases "hunt_prepare r len it f s")
  case (Inl s')
  then show ?thesis by (simp add: hunt_body_def hunt_prepare_au(1) [OF Inl])
next
  case (Inr p)
  obtain u f' s' where p: "p = (u, f', s')" by (cases p) auto
  have "availableUsernames s' = availableUsernames s"
    using Inr hunt_prepare_au(2) unfolding p by blast
  then show ?thesis
    using hunt_check_au [of s' u it f'] by (simp add: hunt_body_def Inr p)
qed

lemma hunt_while_au:
  "prefix (availableUsernames s) (availableUsernames (snd (snd (hunt_while r len its f s))))"
proof (induction its arbitrary: f s)
  case Nil
  show ?case by simp
next
  case (Cons it its)
  obtain c f' s' where hb: "hunt_body r len it f s = (c, f', s')"
    by (cases "hunt_body r len it f s") auto
  have step: "prefix (availableUsernames s) (availableUsernames s')"
    using hunt_body_au [of s r len it f] by (simp add: hb)
  show ?case
  proof (cases "signal_aborted s \<or> c = Break")
    case True
    then show ?thesis using step by (auto simp: hb)
  next
    case False
    then have c: "c = Continue" by (cases c) auto
    have "prefix (availableUsernames s') (availableUsernames (snd (snd (hunt_while r len its f' s'))))"
      by (rule Cons.IH)
    with step have "prefix (availableUsernames s)
        (availableUsernames (snd (snd (hunt_while r len its f' s'))))"
      by (rule prefix_order.trans)
    then show ?thesis using False by (simp add: hb c)
  qed
qed

lemma hunt_start_fields:
  "stats (hunt_start len s) = \<lparr>attempts = 0, available = 0, taken = 0\<rparr>"
  "logMessages (hunt_start len s) =
     [\<lparr>msg_text = ''Starting hunt for usernames of length '' @ string_of_int len @ ''...'',
       msg_type = Info\<rparr>]"
  "availableUsernames (hunt_start len s) = availableUsernames s"
  "signal_aborted (hunt_start len s) = False"
  "isHunting (hunt_start len s) = True"
  "effects (hunt_start len s) = effects s"
  by (simp_all add: hunt_start_def Let_def addLog_def signal_aborted_def)

lemma hunt_finally_au: "availableUsernames (hunt_finally s) = availableUsernames s"
  by (simp add: hunt_finally_def Let_def addLog_fields)

lemma huntUsernames_au:
  "prefix (availableUsernames s) (availableUsernames (state_of (huntUsernames r len its s)))"
proof -
  let ?f0 = "\<lparr>currentAttempts = 0, currentAvailable = 0, currentTaken = 0\<rparr>"
  obtain c f' s' where hw: "hunt_while r len its ?f0 (hunt_start len s) = (c, f', s')"
    by (cases "hunt_while r len its ?f0 (hunt_start len s)") auto
  have "prefix (availableUsernames (hunt_start len s)) (availableUsernames s')"
    using hunt_while_au [of "hunt_start len s" r len its ?f0] by (simp add: hw)
  then show ?thesis
    by (cases c) (simp_all add: huntUsernames_def hw state_of_def hunt_finally_au hunt_start_fields)
qed

text \<open>
  Claim C8. Starting a hunt resets the counters and the log and keeps the list of found
  usernames; one iteration of the loop, a whole run of \<open>huntUsernames\<close> and a start through
  \<open>handleStartHunting\<close> only ever extend that list at its end.
\<close>

theorem found_list_append_only:
  "stats (hunt_start len s) = \<lparr>attempts = 0, available = 0, taken = 0\<rparr> \<and>
   logMessages (hunt_start len s) =
     [\<lparr>msg_text = ''Starting hunt for usernames of length '' @ string_of_int len @ ''...'',
       msg_type = Info\<rparr>] \<and>
   availableUsernames (hunt_start len s) = availableUsernames s \<and>
   prefix (availableUsernames s) (availableUsernames (snd (snd (hunt_body r len it f s)))) \<and>
   prefix (availableUsernames s) (availableUsernames (state_of (huntUsernames r len its s))) \<and>
   prefix (availableUsernames s) (availableUsernames (state_of (handleStartHunting parseInt its s)))"
proof -
  have "prefix (availableUsernames s) (availableUsernames (state_of (handleStartHunting parseInt its s)))"
    using huntUsernames_au [of s s _ its]
    by (simp add: handleStartHunting_eq state_of_def addLog_fields split: option.splits)
  then show ?thesis
    using hunt_start_fields(1,2,3) [of len s] hunt_body_au [of s r len it f]
      huntUsernames_au [of s r len its]
    by simp
qed


lemma hunt_prepare_frame:
  assumes "hunt_prepare r len it f s = Inr (u, f1, s1)"
  shows "f1 = f\<lparr>currentAttempts := currentAttempts f + 1\<rparr>" and "stats s1 = stats_of f1"
  using assms
  by (auto simp: hunt_prepare_def generateUsername_eq generate_loop_not_sentinel Let_def
      split: prod.splits ctl.splits if_splits)

text \<open>
  Claim C4. An iteration that reaches the remote call and finds the signal aborted when
  the call has returned leaves the loop at once, whatever the call returned and whatever
  the script holds next: the local counters of available and taken candidates are as
  before the iteration, the displayed counters show the attempt alone, the list of found
  usernames is as before the call, no line reporting a candidate as available or taken is
  logged, and the session is no longer hunting.
\<close>

theorem cancelled_call_is_not_processed:
  assumes "\<not> signal_aborted s"
    and "hunt_prepare r len it f s = Inr (uname, f1, s1)"
    and "signal_aborted (snd (checkUsernameAvailability uname it s1))"
  shows "\<exists>s2. hunt_while r len (it # its) f s = (Break, f1, s2) \<and>
           currentAvailable f1 = currentAvailable f \<and>
           currentTaken f1 = currentTaken f \<and>
           stats s2 = \<lparr>attempts = currentAttempts f + 1, available = currentAvailable f,
                        taken = currentTaken f\<rparr> \<and>
           availableUsernames s2 = availableUsernames s1 \<and>
           availableUsernames s2 = availableUsernames s \<and>
           filter outcome_log (logMessages s2) = filter outcome_log (logMessages s1) \<and>
           isHunting (hunt_finally s2) = False"
proof -
  let ?s2 = "addLog ''Hunt aborted by user.'' Info (snd (checkUsernameAvailability uname it s1))"
  have check: "hunt_check uname it f1 s1 = (Break, f1, ?s2)"
    using assms(3) by (simp add: hunt_check_def split_beta)
  have body: "hunt_body r len it f s = (Break, f1, ?s2)"
    by (simp add: hunt_body_def assms(2) check)
  have while: "hunt_while r len (it # its) f s = (Break, f1, ?s2)"
    using assms(1) by (simp add: body)
  have f1: "f1 = f\<lparr>currentAttempts := currentAttempts f + 1\<rparr>" and st: "stats s1 = stats_of f1"
    using hunt_prepare_frame [OF assms(2)] by blast+
  have "stats ?s2 = \<lparr>attempts = currentAttempts f + 1, available = currentAvailable f,
      taken = currentTaken f\<rparr>"
    by (simp add: addLog_fields check_fields st) (simp add: f1 stats_of_def)
  moreover have "availableUsernames ?s2 = availableUsernames s1"
    by (simp add: addLog_fields check_fields)
  moreover have "availableUsernames s1 = availableUsernames s"
    using hunt_prepare_au(2) [OF assms(2)] .
  moreover have "filter outcome_log (logMessages ?s2) = filter outcome_log (logMessages s1)"
    by (simp add: addLog_fields check_fields) (simp add: outcome_log_def)
  moreover have "isHunting (hunt_finally ?s2) = False"
    by (simp add: hunt_finally_def Let_def addLog_fields)
  ultimately show ?thesis using while f1 by simp
qed


lemmas run_defs =
  handleStartHunting_def huntUsernames_def hunt_body_def hunt_prepare_def hunt_check_def
  checkUsernameAvailability_def process_result_def throttle_pause_def generateUsername_def
  availableChars_def numbersToInclude_def trim_def initial_state_def scripted_def
  hunt_start_def hunt_finally_def addLog_def delay_def click_stop_def handleStopHunting_def
  abort_def signal_aborted_def stats_of_def charAt_def state_of_def Let_def
  floor_of_product_def round_half_even_def excess_bits_small excess_bits_large
  double_zero_def double_half_def
  USER_INPUT_MIN_LENGTH_def MAX_USERNAME_LENGTH_def MIN_USERNAME_LENGTH_def
  GITHUB_API_BASE_URL_def string_of_int_def string_of_nat.simps digit_char_def
  generate_loop.simps stop_event_def

lemma scripted_step:
  assumes "\<not> signal_aborted s"
  shows "fst (hunt_body r len (scripted st rnd t) f s) = Continue"
    and "fst (snd (hunt_body r len (scripted st rnd t) f s)) =
           \<lparr>currentAttempts = currentAttempts f + 1,
            currentAvailable = currentAvailable f + (if st = 404 then 1 else 0),
            currentTaken = currentTaken f + (if st = 200 then 1 else 0)\<rparr>"
    and "\<not> signal_aborted (snd (snd (hunt_body r len (scripted st rnd t) f s)))"
    and "availableUsernames (snd (snd (hunt_body r len (scripted st rnd t) f s))) =
           availableUsernames s @
             (if st = 404
              then [\<lparr>timestamp = t, username = fst (generateUsername r rnd len s)\<rparr>] else [])"
    and "stats (snd (snd (hunt_body r len (scripted st rnd t) f s))) =
           stats_of (fst (snd (hunt_body r len (scripted st rnd t) f s)))"
  using assms
  by (simp_all add: hunt_body_def hunt_prepare_def throttle_pause_def hunt_check_def
      checkUsernameAvailability_def process_result_def delay_def scripted_def
      generateUsername_eq generate_loop_not_sentinel addLog_def signal_aborted_def
      stats_of_def Let_def)


lemma hunt_while_scripted:
  assumes "\<not> signal_aborted s"
  shows "hunt_while r len (scripted st rnd t # its) f s =
           hunt_while r len its (fst (snd (hunt_body r len (scripted st rnd t) f s)))
             (snd (snd (hunt_body r len (scripted st rnd t) f s)))"
proof -
  obtain c f' s' where hb: "hunt_body r len (scripted st rnd t) f s = (c, f', s')"
    by (cases "hunt_body r len (scripted st rnd t) f s") auto
  have "c = Continue"
    using scripted_step(1) [OF assms, of r len st rnd t f] by (simp add: hb)
  then show ?thesis using assms by (simp add: hb)
qed

lemma candidate_state_independent:
  "fst (generateUsername r rnd len s) = fst (generateUsername r rnd len s')"
  by (simp add: generateUsername_eq)

text \<open>
  Claim C1. Against the responses 404, 200, 403, 500, 404 with no cancellation, the five
  checks are classified available, taken, throttled, error, available; the hunt stands
  at the head of its loop with 5 attempts, 2 available and 1 taken, counted from zero, and
  the two available candidates (the first and the fifth) are appended in that order.
\<close>

theorem scripted_run_classifies_and_counts:
  "\<exists>s'. huntUsernames r len
           [scripted 404 r1 t1, scripted 200 r2 t2, scripted 403 r3 t3, scripted 500 r4 t4,
            scripted 404 r5 t5] s
         = Suspended \<lparr>currentAttempts = 5, currentAvailable = 2, currentTaken = 1\<rparr> s' \<and>
       stats s' = \<lparr>attempts = 5, available = 2, taken = 1\<rparr> \<and>
       availableUsernames s' =
         availableUsernames s @
           [\<lparr>timestamp = t1, username = fst (generateUsername r r1 len s)\<rparr>,
            \<lparr>timestamp = t5, username = fst (generateUsername r r5 len s)\<rparr>] \<and>
       stats (hunt_start len s) = \<lparr>attempts = 0, available = 0, taken = 0\<rparr> \<and>
       map (\<lambda>it. fst (checkUsernameAvailability u it s0))
         [scripted 404 r1 t1, scripted 200 r2 t2, scripted 403 r3 t3, scripted 500 r4 t4,
          scripted 404 r5 t5]
       = [CheckAvailable, CheckTaken, CheckThrottled, CheckError, CheckAvailable]"
proof -
  define f0 where "f0 = \<lparr>currentAttempts = 0, currentAvailable = 0, currentTaken = 0\<rparr>"
  define x0 where "x0 = hunt_start len s"
  define b1 where "b1 = hunt_body r len (scripted 404 r1 t1) f0 x0"
  define b2 where "b2 = hunt_body r len (scripted 200 r2 t2) (fst (snd b1)) (snd (snd b1))"
  define b3 where "b3 = hunt_body r len (scripted 403 r3 t3) (fst (snd b2)) (snd (snd b2))"
  define b4 where "b4 = hunt_body r len (scripted 500 r4 t4) (fst (snd b3)) (snd (snd b3))"
  define b5 where "b5 = hunt_body r len (scripted 404 r5 t5) (fst (snd b4)) (snd (snd b4))"
  have a0: "\<not> signal_aborted x0" and u0: "availableUsernames x0 = availableUsernames s"
    by (simp_all add: x0_def hunt_start_fields)
  note st1 = scripted_step [OF a0, of r len 404 r1 t1 f0, folded b1_def]
  note st2 = scripted_step [OF st1(3), of r len 200 r2 t2 "fst (snd b1)", folded b2_def]
  note st3 = scripted_step [OF st2(3), of r len 403 r3 t3 "fst (snd b2)", folded b3_def]
  note st4 = scripted_step [OF st3(3), of r len 500 r4 t4 "fst (snd b3)", folded b4_def]
  note st5 = scripted_step [OF st4(3), of r len 404 r5 t5 "fst (snd b4)", folded b5_def]
  have frame: "fst (snd b5) = \<lparr>currentAttempts = 5, currentAvailable = 2, currentTaken = 1\<rparr>"
    by (simp add: st5(2) st4(2) st3(2) st2(2) st1(2) f0_def)
  have found: "availableUsernames (snd (snd b5)) =
      availableUsernames s @
        [\<lparr>timestamp = t1, username = fst (generateUsername r r1 len s)\<rparr>,
         \<lparr>timestamp = t5, username = fst (generateUsername r r5 len s)\<rparr>]"
    using candidate_state_independent [of r r1 len x0 s]
      candidate_state_independent [of r r5 len "snd (snd b4)" s]
    by (simp add: st5(4) st4(4) st3(4) st2(4) st1(4) u0)
  have counters: "stats (snd (snd b5)) = \<lparr>attempts = 5, available = 2, taken = 1\<rparr>"
    by (simp add: st5(5) frame stats_of_def)
  have "hunt_while r len
          [scripted 404 r1 t1, scripted 200 r2 t2, scripted 403 r3 t3, scripted 500 r4 t4,
           scripted 404 r5 t5] f0 x0
        = hunt_while r len [] (fst (snd b5)) (snd (snd b5))"
    by (simp only: hunt_while_scripted [OF a0] hunt_while_scripted [OF st1(3)]
        hunt_while_scripted [OF st2(3)] hunt_while_scripted [OF st3(3)]
        hunt_while_scripted [OF st4(3)] b1_def [symmetric] b2_def [symmetric]
        b3_def [symmetric] b4_def [symmetric] b5_def [symmetric])
  also have "\<dots> = (Continue, fst (snd b5), snd (snd b5))"
    using st5(3) by simp
  finally have run: "huntUsernames r len
      [scripted 404 r1 t1, scripted 200 r2 t2, scripted 403 r3 t3, scripted 500 r4 t4,
       scripted 404 r5 t5] s
    = Suspended \<lparr>currentAttempts = 5, currentAvailable = 2, currentTaken = 1\<rparr> (snd (snd b5))"
    by (simp add: huntUsernames_def f0_def x0_def frame)
  have classes: "map (\<lambda>it. fst (checkUsernameAvailability u it s0))
         [scripted 404 r1 t1, scripted 200 r2 t2, scripted 403 r3 t3, scripted 500 r4 t4,
          scripted 404 r5 t5]
       = [CheckAvailable, CheckTaken, CheckThrottled, CheckError, CheckAvailable]"
    by (simp add: checkUsernameAvailability_def scripted_def Let_def)
  from run counters found classes show ?thesis
    by (simp add: hunt_start_fields)
qed


theorem scripted_run_classifies_and_counts_witness:
  "\<exists>s'. huntUsernames initial_state 3
           [scripted 404 (\<lambda>i. double_zero) ''t1'', scripted 200 (\<lambda>i. double_zero) ''t2'',
            scripted 403 (\<lambda>i. double_zero) ''t3'', scripted 500 (\<lambda>i. double_zero) ''t4'',
            scripted 404 (\<lambda>i. double_half) ''t5''] initial_state
         = Suspended \<lparr>currentAttempts = 5, currentAvailable = 2, currentTaken = 1\<rparr> s' \<and>
       stats s' = \<lparr>attempts = 5, available = 2, taken = 1\<rparr> \<and>
       availableUsernames s' =
         [\<lparr>timestamp = ''t1'', username = ''aaa''\<rparr>, \<lparr>timestamp = ''t5'', username = ''sss''\<rparr>]"
proof -
  have u1: "fst (generateUsername initial_state (\<lambda>i. double_zero) 3 initial_state) = ''aaa''"
    by (simp add: generateUsername_def availableChars_def numbersToInclude_def trim_def
        initial_state_def generate_loop.simps charAt_def floor_of_product_def
        round_half_even_def excess_bits_small excess_bits_large double_zero_def double_half_def
        Let_def)
  have u5: "fst (generateUsername initial_state (\<lambda>i. double_half) 3 initial_state) = ''sss''"
    by (simp add: generateUsername_def availableChars_def numbersToInclude_def trim_def
        initial_state_def generate_loop.simps charAt_def floor_of_product_def
        round_half_even_def excess_bits_small excess_bits_large double_zero_def double_half_def
        Let_def)
  have e: "availableUsernames initial_state = []"
    by (simp add: initial_state_def)
  show ?thesis
    using scripted_run_classifies_and_counts [of initial_state 3 "\<lambda>i. double_zero" "''t1''" "\<lambda>i. double_zero" "''t2''"
        "\<lambda>i. double_zero" "''t3''" "\<lambda>i. double_zero" "''t4''" "\<lambda>i. double_half" "''t5''" initial_state "''aaa''"
        initial_state]
    unfolding u1 u5 e by auto
qed

text \<open>
  Claim C2, evaluated on the code. \<open>huntUsernames\<close> reads \<open>isThrottled\<close> as a constant of
  the render that started it, so \<open>setIsThrottled(true)\<close> does not reach the running loop.
  Started from the initial page with the responses 403 and 404, the first check is
  classified throttled and the flag is set, yet the second request follows the 1500 ms
  delay between checks: no 60000 ms pause is waited for and no pause is logged.
\<close>

theorem throttled_check_not_followed_by_pause:
  "fst (checkUsernameAvailability ''aaa'' (scripted 403 (\<lambda>i. double_zero) ''t1'') initial_state)
     = CheckThrottled \<and>
   effects (state_of (handleStartHunting (\<lambda>x. Some 3)
              [scripted 403 (\<lambda>i. double_zero) ''t1'', scripted 404 (\<lambda>i. double_zero) ''t2''] initial_state))
     = [Fetch ''https://api.github.com/users/aaa'', Delay 1500,
        Fetch ''https://api.github.com/users/aaa'', Delay 1500] \<and>
   isThrottled (state_of (handleStartHunting (\<lambda>x. Some 3)
              [scripted 403 (\<lambda>i. double_zero) ''t1'', scripted 404 (\<lambda>i. double_zero) ''t2''] initial_state))
     = True \<and>
   map msg_text (logMessages (state_of (handleStartHunting (\<lambda>x. Some 3)
              [scripted 403 (\<lambda>i. double_zero) ''t1'', scripted 404 (\<lambda>i. double_zero) ''t2''] initial_state)))
     = [''Starting hunt for usernames of length 3...'', ''Checking: aaa'', ''Checking: aaa'',
        ''AVAILABLE: aaa'']"
  by (simp add: run_defs)

theorem cancelled_call_is_not_processed_witness:
  "\<not> signal_aborted (hunt_start 3 initial_state) \<and>
   fst (hunt_while initial_state 3
          [(scripted 404 (\<lambda>i. double_zero) ''t1'')\<lparr>stop_in_fetch := True\<rparr>, scripted 404 (\<lambda>i. double_zero) ''t2'']
          \<lparr>currentAttempts = 0, currentAvailable = 0, currentTaken = 0\<rparr>
          (hunt_start 3 initial_state)) = Break \<and>
   availableUsernames (snd (snd (hunt_while initial_state 3
          [(scripted 404 (\<lambda>i. double_zero) ''t1'')\<lparr>stop_in_fetch := True\<rparr>, scripted 404 (\<lambda>i. double_zero) ''t2'']
          \<lparr>currentAttempts = 0, currentAvailable = 0, currentTaken = 0\<rparr>
          (hunt_start 3 initial_state)))) = [] \<and>
   stats (snd (snd (hunt_while initial_state 3
          [(scripted 404 (\<lambda>i. double_zero) ''t1'')\<lparr>stop_in_fetch := True\<rparr>, scripted 404 (\<lambda>i. double_zero) ''t2'']
          \<lparr>currentAttempts = 0, currentAvailable = 0, currentTaken = 0\<rparr>
          (hunt_start 3 initial_state)))) = \<lparr>attempts = 1, available = 0, taken = 0\<rparr>"
proof -
  let ?it = "(scripted 404 (\<lambda>i. double_zero) ''t1'')\<lparr>stop_in_fetch := True\<rparr>"
  let ?f0 = "\<lparr>currentAttempts = 0, currentAvailable = 0, currentTaken = 0\<rparr>"
  have h1: "\<not> signal_aborted (hunt_start 3 initial_state)"
    by (simp add: hunt_start_fields)
  have "\<exists>u f1 s1. hunt_prepare initial_state 3 ?it ?f0 (hunt_start 3 initial_state) = Inr (u, f1, s1) \<and>
      signal_aborted (snd (checkUsernameAvailability u ?it s1))"
    by (simp add: run_defs)
  then obtain u f1 s1 where
    h2: "hunt_prepare initial_state 3 ?it ?f0 (hunt_start 3 initial_state) = Inr (u, f1, s1)" and
    h3: "signal_aborted (snd (checkUsernameAvailability u ?it s1))"
    by blast
  have e: "availableUsernames (hunt_start 3 initial_state) = []"
    by (simp add: hunt_start_fields initial_state_def)
  show ?thesis
    using cancelled_call_is_not_processed [OF h1 h2 h3, of "[scripted 404 (\<lambda>i. double_zero) ''t2'']"] h1 e
    by auto
qed

theorem found_list_append_only_witness:
  "availableUsernames (state_of (huntUsernames initial_state 3 [scripted 404 (\<lambda>i. double_zero) ''t1'']
       (initial_state\<lparr>availableUsernames := [\<lparr>timestamp = ''t0'', username = ''old''\<rparr>],
                       stats := \<lparr>attempts = 7, available = 1, taken = 6\<rparr>\<rparr>)))
     = [\<lparr>timestamp = ''t0'', username = ''old''\<rparr>, \<lparr>timestamp = ''t1'', username = ''aaa''\<rparr>] \<and>
   prefix [\<lparr>timestamp = ''t0'', username = ''old''\<rparr>]
     (availableUsernames (state_of (huntUsernames initial_state 3 [scripted 404 (\<lambda>i. double_zero) ''t1'']
       (initial_state\<lparr>availableUsernames := [\<lparr>timestamp = ''t0'', username = ''old''\<rparr>],
                       stats := \<lparr>attempts = 7, available = 1, taken = 6\<rparr>\<rparr>)))) \<and>
   stats (hunt_start 3
       (initial_state\<lparr>availableUsernames := [\<lparr>timestamp = ''t0'', username = ''old''\<rparr>],
                       stats := \<lparr>attempts = 7, available = 1, taken = 6\<rparr>\<rparr>))
     = \<lparr>attempts = 0, available = 0, taken = 0\<rparr>"
proof -
  let ?s = "initial_state\<lparr>availableUsernames := [\<lparr>timestamp = ''t0'', username = ''old''\<rparr>],
                       stats := \<lparr>attempts = 7, available = 1, taken = 6\<rparr>\<rparr>"
  have v: "availableUsernames (state_of (huntUsernames initial_state 3
       [scripted 404 (\<lambda>i. double_zero) ''t1''] ?s))
     = [\<lparr>timestamp = ''t0'', username = ''old''\<rparr>, \<lparr>timestamp = ''t1'', username = ''aaa''\<rparr>]"
    by (simp add: run_defs)
  have a: "availableUsernames ?s = [\<lparr>timestamp = ''t0'', username = ''old''\<rparr>]"
    by simp
  show ?thesis
    using found_list_append_only [where s = ?s and r = initial_state and len = 3
        and its = "[scripted 404 (\<lambda>i. double_zero) ''t1'']"]
    unfolding a v by simp
qed


text \<open>
  The same on every script: a hunt whose render has \<open>isThrottled\<close> unset, as every hunt
  started from a page that is not throttled has, never waits the 60000 ms, whatever the
  remote answers.
\<close>

lemma delay_effects: "effects (delay ms b s) = effects s @ [Delay ms]"
  by (simp add: delay_def Let_def click_stop_fields)

lemma check_effects:
  "effects (snd (checkUsernameAvailability u it s)) = effects s @ [Fetch (GITHUB_API_BASE_URL @ u)]"
  by (simp add: checkUsernameAvailability_def Let_def click_stop_fields addLog_fields
      split: fetch_result.splits)

lemma process_result_effects:
  "effects (snd (process_result u it res f s)) =
     effects s @ (if res = CheckError then [Delay 5000] else [])"
  by (simp add: process_result_def Let_def addLog_fields delay_effects split: outcome.splits)

lemma hunt_check_pauses:
  "count_list (effects (snd (snd (hunt_check u it f s)))) (Delay 60000) =
     count_list (effects s) (Delay 60000)"
  by (simp add: hunt_check_def split_beta Let_def addLog_fields delay_effects check_effects
      process_result_effects)

lemma hunt_prepare_effects_unthrottled:
  assumes "\<not> isThrottled r"
  shows "hunt_prepare r len it f s = Inl s' \<Longrightarrow> effects s' = effects s"
    and "hunt_prepare r len it f s = Inr (u, f', s') \<Longrightarrow> effects s' = effects s"
  using assms
  by (auto simp: hunt_prepare_def throttle_pause_def generateUsername_eq
      generate_loop_not_sentinel Let_def addLog_fields split: if_splits)

lemma hunt_body_pauses:
  assumes "\<not> isThrottled r"
  shows "count_list (effects (snd (snd (hunt_body r len it f s)))) (Delay 60000) =
           count_list (effects s) (Delay 60000)"
proof (cases "hunt_prepare r len it f s")
  case (Inl s')
  then show ?thesis
    by (simp add: hunt_body_def hunt_prepare_effects_unthrottled(1) [OF assms Inl])
next
  case (Inr p)
  obtain u f' s' where p: "p = (u, f', s')" by (cases p) auto
  have "effects s' = effects s"
    using Inr hunt_prepare_effects_unthrottled(2) [OF assms] unfolding p by blast
  then show ?thesis
    using hunt_check_pauses [of u it f' s'] by (simp add: hunt_body_def Inr p)
qed

lemma hunt_while_pauses:
  assumes "\<not> isThrottled r"
  shows "count_list (effects (snd (snd (hunt_while r len its f s)))) (Delay 60000) =
           count_list (effects s) (Delay 60000)"
proof (induction its arbitrary: f s)
  case Nil
  show ?case by simp
next
  case (Cons it its)
  obtain c f' s' where hb: "hunt_body r len it f s = (c, f', s')"
    by (cases "hunt_body r len it f s") auto
  have step: "count_list (effects s') (Delay 60000) = count_list (effects s) (Delay 60000)"
    using hunt_body_pauses [OF assms, of len it f s] by (simp add: hb)
  show ?case
    using step Cons.IH [of f' s'] by (cases c) (simp_all add: hb)
qed

lemma unthrottled_render_never_pauses:
  assumes "\<not> isThrottled r"
  shows "count_list (effects (state_of (huntUsernames r len its s))) (Delay 60000) =
           count_list (effects s) (Delay 60000)"
proof -
  let ?f0 = "\<lparr>currentAttempts = 0, currentAvailable = 0, currentTaken = 0\<rparr>"
  obtain c f' s' where hw: "hunt_while r len its ?f0 (hunt_start len s) = (c, f', s')"
    by (cases "hunt_while r len its ?f0 (hunt_start len s)") auto
  have "count_list (effects s') (Delay 60000) = count_list (effects (hunt_start len s)) (Delay 60000)"
    using hunt_while_pauses [OF assms, of len its ?f0 "hunt_start len s"] by (simp add: hw)
  then show ?thesis
    by (cases c)
      (simp_all add: huntUsernames_def hw state_of_def hunt_finally_def Let_def addLog_fields
        hunt_start_fields)
qed

text \<open>
  Over a whole session: every step of the loop keeps the number of stop events logged,
  plus one while the session is hunting, as it is. A hunt starts with no stop event and
  hunting, so however often and wherever Stop is pressed during a run, "Hunting stopped by
  user." stands in the log at most once.
\<close>

lemma stop_budget_addLog:
  "txt \<noteq> ''Hunting stopped by user.'' \<Longrightarrow> stop_budget (addLog txt ty s) = stop_budget s"
  by (simp add: stop_budget_def addLog_def stop_event_def)

lemma stop_budget_click: "stop_budget (click_stop s) = stop_budget s"
  by (simp add: stop_budget_def click_stop_def handleStopHunting_fields)

lemma stop_budget_delay: "stop_budget (delay ms b s) = stop_budget s"
  by (simp add: delay_def Let_def stop_budget_click) (simp add: stop_budget_def)

lemma stop_budget_check:
  "stop_budget (snd (checkUsernameAvailability u it s)) = stop_budget s"
  by (simp add: checkUsernameAvailability_def Let_def stop_budget_click stop_budget_addLog
      split: fetch_result.splits) (simp add: stop_budget_def)

lemma stop_budget_process:
  "stop_budget (snd (process_result u it res f s)) = stop_budget s"
  by (simp add: process_result_def Let_def stop_budget_delay stop_budget_addLog
      split: outcome.splits) (simp add: stop_budget_def)

lemma stop_budget_hunt_check:
  "stop_budget (snd (snd (hunt_check u it f s))) = stop_budget s"
proof -
  have upd: "stop_budget (x\<lparr>stats := v\<rparr>) = stop_budget x" for x v
    by (simp add: stop_budget_def)
  show ?thesis
    by (simp add: hunt_check_def split_beta Let_def stop_budget_delay stop_budget_addLog
        stop_budget_check stop_budget_process upd)
qed

lemma stop_budget_pause:
  "stop_budget (snd (throttle_pause r it s)) = stop_budget s"
proof -
  have upd: "stop_budget (x\<lparr>isThrottled := v\<rparr>) = stop_budget x" for x v
    by (simp add: stop_budget_def)
  show ?thesis
    by (simp add: throttle_pause_def Let_def stop_budget_addLog stop_budget_delay upd)
qed

lemma stop_budget_prepare:
  "hunt_prepare r len it f s = Inl s' \<Longrightarrow> stop_budget s' = stop_budget s"
  "hunt_prepare r len it f s = Inr (u, f', s') \<Longrightarrow> stop_budget s' = stop_budget s"
proof -
  have upd: "stop_budget (x\<lparr>stats := v\<rparr>) = stop_budget x" for x v
    by (simp add: stop_budget_def)
  show "hunt_prepare r len it f s = Inl s' \<Longrightarrow> stop_budget s' = stop_budget s"
    using stop_budget_pause [of r it s]
    by (auto simp: hunt_prepare_def generateUsername_eq generate_loop_not_sentinel Let_def
        split: prod.splits ctl.splits if_splits)
  show "hunt_prepare r len it f s = Inr (u, f', s') \<Longrightarrow> stop_budget s' = stop_budget s"
    using stop_budget_pause [of r it s]
    by (auto simp: hunt_prepare_def generateUsername_eq generate_loop_not_sentinel Let_def
        stop_budget_addLog upd split: prod.splits ctl.splits if_splits)
qed

lemma stop_budget_body: "stop_budget (snd (snd (hunt_body r len it f s))) = stop_budget s"
proof (cases "hunt_prepare r len it f s")
  case (Inl s')
  then show ?thesis by (simp add: hunt_body_def stop_budget_prepare(1) [OF Inl])
next
  case (Inr p)
  obtain u f' s' where p: "p = (u, f', s')" by (cases p) auto
  have "stop_budget s' = stop_budget s"
    using Inr stop_budget_prepare(2) unfolding p by blast
  then show ?thesis
    using stop_budget_hunt_check [of u it f' s'] by (simp add: hunt_body_def Inr p)
qed

lemma stop_budget_while: "stop_budget (snd (snd (hunt_while r len its f s))) = stop_budget s"
proof (induction its arbitrary: f s)
  case Nil
  show ?case by simp
next
  case (Cons it its)
  obtain c f' s' where hb: "hunt_body r len it f s = (c, f', s')"
    by (cases "hunt_body r len it f s") auto
  have "stop_budget s' = stop_budget s"
    using stop_budget_body [of r len it f s] by (simp add: hb)
  then show ?case
    using Cons.IH [of f' s'] by (cases c) (simp_all add: hb)
qed

lemma one_stop_event_per_session:
  "count_list (logMessages (state_of (huntUsernames r len its s))) stop_event \<le> 1"
proof -
  let ?f0 = "\<lparr>currentAttempts = 0, currentAvailable = 0, currentTaken = 0\<rparr>"
  obtain c f' s' where hw: "hunt_while r len its ?f0 (hunt_start len s) = (c, f', s')"
    by (cases "hunt_while r len its ?f0 (hunt_start len s)") auto
  have "stop_budget (hunt_start len s) = 1"
    by (simp add: stop_budget_def hunt_start_fields stop_event_def)
  then have b: "stop_budget s' = 1"
    using stop_budget_while [of r len its ?f0 "hunt_start len s"] by (simp add: hw)
  then have "count_list (logMessages s') stop_event \<le> 1"
    by (simp add: stop_budget_def split: if_splits)
  then show ?thesis
    by (cases c)
      (simp_all add: huntUsernames_def hw state_of_def hunt_finally_def Let_def addLog_def
        stop_event_def)
qed

end
